theory Spec2Isabelle
  imports
    Complex_Main
    "HOL-Library.Char_ord"
    "HOL-Library.List_Lexorder"
    "HOL-Library.Product_Lexorder"
    "HOL-Library.AList"
    "HOL-Library.Multiset"
begin

section \<open>Cell values, frames and the runtime\<close>

text \<open>
  The embedding follows \<^verbatim>\<open>file_comparison.py\<close>. Python and pandas values are
  modelled as follows.
  \<^item> A float is either a finite number or NaN. Finite numbers are exact reals: IEEE
    rounding, overflow and the infinities are not modelled, and an integer cell and
    a float cell of the same value are the same value (as \<^verbatim>\<open>1 == 1.0\<close> in Python).
  \<^item> A cell is \<^verbatim>\<open>None\<close>, a float or a string. Booleans and dates are not modelled.
  \<^item> Column labels are strings; the labels of one frame are pairwise distinct (both
    pandas parsers rename a repeated header).
\<close>

datatype pyfloat = Fin real | NaN

datatype pyval = PNone | PFloat pyfloat | PStr string

text \<open>The column types pandas infers; \<^verbatim>\<open>np.number\<close> covers the first two.\<close>

datatype np_dtype = Int64 | Float64 | Object

datatype error =
    ValueError string
  | KeyError pyval
  | TypeError
  | ZeroDivisionError
  | IOError string

text \<open>
  A \<^verbatim>\<open>DataFrame\<close>: its column labels in order, the dtype of each column, and its
  rows, each with its index label and its cells by column label.
\<close>

record frame =
  columns :: "string list"
  dtype :: "string \<Rightarrow> np_dtype"
  rows :: "(pyval \<times> (string \<Rightarrow> pyval)) list"

definition index :: "frame \<Rightarrow> pyval list" where
  "index df = map fst (rows df)"

text \<open>
  What the program takes from outside: the two pandas parsers applied to the file
  system, and Python's \<^verbatim>\<open>float\<close> on a string (\<^verbatim>\<open>None\<close> where it raises).
\<close>

record runtime =
  read_csv :: "string \<Rightarrow> error + frame"
  read_excel :: "string \<Rightarrow> error + frame"
  float_str :: "string \<Rightarrow> pyfloat option"

text \<open>The parser calls a run makes, in order. The logging calls are left out.\<close>

datatype event = ReadCsv string | ReadExcel string

section \<open>The loader\<close>

definition endswith :: "string \<Rightarrow> string \<Rightarrow> bool" where
  "endswith s suf = (length suf \<le> length s \<and> drop (length s - length suf) s = suf)"

definition unsupported_msg :: string where
  "unsupported_msg = ''Only CSV and Excel files are supported''"

text \<open>\<^verbatim>\<open>read_file\<close>: the events it causes and what it returns or raises.\<close>

definition read_file :: "runtime \<Rightarrow> string \<Rightarrow> event list \<times> (error + frame)" where
  "read_file rt file_path =
     (if endswith file_path ''.csv'' then ([ReadCsv file_path], read_csv rt file_path)
      else if endswith file_path ''.xlsx'' then ([ReadExcel file_path], read_excel rt file_path)
      else ([], Inl (ValueError unsupported_msg)))"

section \<open>The comparator\<close>

text \<open>
  \<^verbatim>\<open>Path(file).stem\<close>: the last component of the path, without its last suffix. A
  name that starts with its only dot, or ends with a dot, has no suffix.
\<close>

definition path_name :: "string \<Rightarrow> string" where
  "path_name p = rev (takeWhile (\<lambda>c. c \<noteq> CHR ''/'') (rev p))"

definition stem :: "string \<Rightarrow> string" where
  "stem p =
     (let name = path_name p;
          tail = takeWhile (\<lambda>c. c \<noteq> CHR ''.'') (rev name);
          i = length name - length tail - 1
      in if length tail < length name \<and> 0 < i \<and> i < length name - 1
         then take i name else name)"

definition key_column_msg :: "string \<Rightarrow> string" where
  "key_column_msg key_column =
     ''Key column '' @ [CHR 0x27] @ key_column @ [CHR 0x27] @ '' must exist in both files''"

text \<open>
  \<^verbatim>\<open>df.set_index(key_column)\<close>: the cells of the key column become the index labels
  and the column leaves the frame's columns.
\<close>

definition set_index :: "string \<Rightarrow> frame \<Rightarrow> frame" where
  "set_index key_column df =
     df\<lparr>columns := removeAll key_column (columns df),
        rows := map (\<lambda>(_, r). (r key_column, r)) (rows df)\<rparr>"

text \<open>
  \<^verbatim>\<open>sorted\<close> on index labels. Numbers sort by value and strings by code point;
  Python raises \<^verbatim>\<open>TypeError\<close> when it has to order a string against a number or
  anything against \<^verbatim>\<open>None\<close>. With a NaN among several labels Python raises nothing
  and the order is unspecified: such labels are outside this model, which rejects them
  in the same way.
\<close>

fun is_number :: "pyval \<Rightarrow> bool" where
  "is_number (PFloat (Fin _)) = True"
| "is_number _ = False"

fun is_str :: "pyval \<Rightarrow> bool" where
  "is_str (PStr _) = True"
| "is_str _ = False"

fun label_rank :: "pyval \<Rightarrow> real \<times> string" where
  "label_rank (PFloat (Fin r)) = (r, [])"
| "label_rank (PStr s) = (0, s)"
| "label_rank _ = (0, [])"

definition py_sorted :: "pyval list \<Rightarrow> error + pyval list" where
  "py_sorted xs =
     (if length xs \<le> 1 \<or> list_all is_number xs \<or> list_all is_str xs
      then Inr (sort_key label_rank xs) else Inl TypeError)"

text \<open>\<^verbatim>\<open>np.issubdtype(d, np.number)\<close>.\<close>

fun is_np_number :: "np_dtype \<Rightarrow> bool" where
  "is_np_number Int64 = True"
| "is_np_number Float64 = True"
| "is_np_number Object = False"

text \<open>\<^verbatim>\<open>df[col].dtype\<close>: a label that is not a column raises \<^verbatim>\<open>KeyError\<close>.\<close>

definition col_dtype :: "frame \<Rightarrow> string \<Rightarrow> error + np_dtype" where
  "col_dtype df col =
     (if col \<in> set (columns df) then Inr (dtype df col) else Inl (KeyError (PStr col)))"

text \<open>
  The list comprehension of lines 57 to 59. \<^verbatim>\<open>or\<close> evaluates its second operand only
  when the first is false.
\<close>

fun numeric_cols_of :: "frame \<Rightarrow> frame \<Rightarrow> string list \<Rightarrow> error + string list" where
  "numeric_cols_of df1 df2 [] = Inr []"
| "numeric_cols_of df1 df2 (col # cols) =
     (case col_dtype df1 col of
        Inl e \<Rightarrow> Inl e
      | Inr d1 \<Rightarrow>
          if is_np_number d1
          then (case numeric_cols_of df1 df2 cols of
                  Inl e \<Rightarrow> Inl e | Inr ns \<Rightarrow> Inr (col # ns))
          else (case col_dtype df2 col of
                  Inl e \<Rightarrow> Inl e
                | Inr d2 \<Rightarrow>
                    (case numeric_cols_of df1 df2 cols of
                       Inl e \<Rightarrow> Inl e
                     | Inr ns \<Rightarrow> Inr (if is_np_number d2 then col # ns else ns))))"

text \<open>
  \<^verbatim>\<open>df.at[key, col]\<close>. When the label occurs once the result is the cell; when it
  occurs several times pandas falls back to \<^verbatim>\<open>loc\<close> and returns a \<^verbatim>\<open>Series\<close> of
  the cells; a label that does not occur raises \<^verbatim>\<open>KeyError\<close>.
\<close>

datatype atval = Scalar pyval | Series "pyval list"

definition frame_at :: "frame \<Rightarrow> pyval \<Rightarrow> string \<Rightarrow> error + atval" where
  "frame_at df key col =
     (case map (\<lambda>(_, r). r col) (filter (\<lambda>(k, _). k = key) (rows df)) of
        [] \<Rightarrow> Inl (KeyError key)
      | [v] \<Rightarrow> Inr (Scalar v)
      | vs \<Rightarrow> Inr (Series vs))"

text \<open>\<^verbatim>\<open>df.at[key, col] if col in df.columns else None\<close>.\<close>

definition cell :: "frame \<Rightarrow> pyval \<Rightarrow> string \<Rightarrow> error + atval" where
  "cell df key col = (if col \<in> set (columns df) then frame_at df key col else Inr (Scalar PNone))"

text \<open>\<^verbatim>\<open>val1 != val2\<close> on two scalars: NaN differs from everything, itself included.\<close>

definition py_ne :: "pyval \<Rightarrow> pyval \<Rightarrow> bool" where
  "py_ne a b = (a \<noteq> b \<or> a = PFloat NaN)"

definition ambiguous_msg :: string where
  "ambiguous_msg = ''The truth value of a Series is ambiguous''"

text \<open>\<^verbatim>\<open>float(v)\<close>, with \<^verbatim>\<open>None\<close> where Python raises.\<close>

fun py_float :: "runtime \<Rightarrow> pyval \<Rightarrow> pyfloat option" where
  "py_float rt PNone = None"
| "py_float rt (PFloat x) = Some x"
| "py_float rt (PStr s) = float_str rt s"

fun fsub :: "pyfloat \<Rightarrow> pyfloat \<Rightarrow> pyfloat" where
  "fsub (Fin a) (Fin b) = Fin (a - b)"
| "fsub _ _ = NaN"

fun fneg :: "pyfloat \<Rightarrow> pyfloat" where
  "fneg (Fin a) = Fin (- a)"
| "fneg NaN = NaN"

text \<open>The negation of a stored difference; \<^verbatim>\<open>None\<close> has none.\<close>

fun py_neg :: "pyval \<Rightarrow> pyval" where
  "py_neg (PFloat x) = PFloat (fneg x)"
| "py_neg v = v"

text \<open>
  Lines 85 to 88: \<^verbatim>\<open>float(val2) - float(val1)\<close>, and \<^verbatim>\<open>None\<close> when either
  conversion raises.
\<close>

definition difference :: "runtime \<Rightarrow> pyval \<Rightarrow> pyval \<Rightarrow> pyval" where
  "difference rt val1 val2 =
     (case py_float rt val2 of
        None \<Rightarrow> PNone
      | Some b \<Rightarrow> (case py_float rt val1 of None \<Rightarrow> PNone | Some a \<Rightarrow> PFloat (fsub b a)))"

text \<open>
  A mismatch row is a \<^verbatim>\<open>dict\<close> whose keys include the two file names, so it is kept
  as an association list in insertion order; storing under a key that is present
  replaces the value in place, as in Python.
\<close>

type_synonym pydict = "(string \<times> pyval) list"

definition dict_of :: "(string \<times> pyval) list \<Rightarrow> pydict" where
  "dict_of kvs = foldl (\<lambda>d (k, v). AList.update k v d) [] kvs"

definition mismatch_row ::
  "runtime \<Rightarrow> string \<Rightarrow> string \<Rightarrow> string list \<Rightarrow> pyval \<Rightarrow> string \<Rightarrow> pyval \<Rightarrow> pyval \<Rightarrow> pydict" where
  "mismatch_row rt file1_name file2_name numeric_cols key col val1 val2 =
     (let row = dict_of [(''key'', key), (''column_name'', PStr col),
                         (file1_name, val1), (file2_name, val2)]
      in if col \<in> set numeric_cols
         then AList.update ''difference'' (difference rt val1 val2) row
         else row)"

text \<open>
  The loop over the columns, lines 71 to 89, with its two accumulators. Using a
  \<^verbatim>\<open>Series\<close> as the condition of \<^verbatim>\<open>if\<close> raises \<^verbatim>\<open>ValueError\<close>.
\<close>

fun compare_columns ::
  "runtime \<Rightarrow> frame \<Rightarrow> frame \<Rightarrow> string \<Rightarrow> string \<Rightarrow> string list \<Rightarrow> pyval \<Rightarrow>
   string list \<Rightarrow> int \<times> pydict list \<Rightarrow> error + int \<times> pydict list" where
  "compare_columns rt df1 df2 file1_name file2_name numeric_cols key [] acc = Inr acc"
| "compare_columns rt df1 df2 file1_name file2_name numeric_cols key (col # cols)
     (mismatches, detailed_rows) =
     (case cell df1 key col of
        Inl e \<Rightarrow> Inl e
      | Inr c1 \<Rightarrow>
          (case cell df2 key col of
             Inl e \<Rightarrow> Inl e
           | Inr c2 \<Rightarrow>
               (case (c1, c2) of
                  (Scalar val1, Scalar val2) \<Rightarrow>
                    if py_ne val1 val2
                    then compare_columns rt df1 df2 file1_name file2_name numeric_cols key cols
                           (mismatches + 1,
                            detailed_rows @
                              [mismatch_row rt file1_name file2_name numeric_cols key col val1 val2])
                    else compare_columns rt df1 df2 file1_name file2_name numeric_cols key cols
                           (mismatches, detailed_rows)
                | _ \<Rightarrow> Inl (ValueError ambiguous_msg))))"

text \<open>
  \<^verbatim>\<open>round(x, 2)\<close> rounds to the nearest multiple of 0.01, a tie to the even one; line
  92 divides by \<^verbatim>\<open>total_cols\<close>, and Python raises on a zero divisor.
\<close>

definition round_half_even :: "real \<Rightarrow> int" where
  "round_half_even x =
     (let f = \<lfloor>x\<rfloor>; d = x - of_int f
      in if d < 1 / 2 then f else if 1 / 2 < d then f + 1 else if even f then f else f + 1)"

definition py_round2 :: "real \<Rightarrow> real" where
  "py_round2 x = of_int (round_half_even (x * 100)) / 100"

definition match_pct :: "int \<Rightarrow> int \<Rightarrow> error + real" where
  "match_pct total_cols mismatches =
     (if total_cols = 0 then Inl ZeroDivisionError
      else Inr (py_round2 (of_int (total_cols - mismatches) / of_int total_cols * 100)))"

record keyed_row =
  key :: pyval

record summary_row = keyed_row +
  total_columns :: int
  matched_columns :: int
  mismatched_columns :: int
  match_percentage :: real
  status :: string

record missing_row = keyed_row +
  present_in :: string

definition status_match :: string where
  "status_match = [CHR 0xE2, CHR 0x9C, CHR 0x85] @ '' MATCH''"

definition status_mismatch :: string where
  "status_mismatch = [CHR 0xE2, CHR 0x9D, CHR 0x8C] @ '' MISMATCH''"

text \<open>
  The loop over the keys, lines 61 to 101, with its three accumulators. The loop
  variable \<^verbatim>\<open>key\<close> of the source is \<open>k\<close> here, since \<open>key\<close> is the field of the rows.
\<close>

fun compare_keys ::
  "runtime \<Rightarrow> frame \<Rightarrow> frame \<Rightarrow> string \<Rightarrow> string \<Rightarrow> string list \<Rightarrow> string list \<Rightarrow>
   pyval list \<Rightarrow> summary_row list \<times> pydict list \<times> missing_row list \<Rightarrow>
   error + summary_row list \<times> pydict list \<times> missing_row list" where
  "compare_keys rt df1 df2 file1_name file2_name all_columns numeric_cols [] acc = Inr acc"
| "compare_keys rt df1 df2 file1_name file2_name all_columns numeric_cols (k # keys)
     (summary_rows, detailed_rows, missing_rows) =
     (if k \<notin> set (index df1)
      then compare_keys rt df1 df2 file1_name file2_name all_columns numeric_cols keys
             (summary_rows, detailed_rows,
              missing_rows @ [\<lparr>key = k, present_in = file2_name @ ''_only''\<rparr>])
      else if k \<notin> set (index df2)
      then compare_keys rt df1 df2 file1_name file2_name all_columns numeric_cols keys
             (summary_rows, detailed_rows,
              missing_rows @ [\<lparr>key = k, present_in = file1_name @ ''_only''\<rparr>])
      else
        (case compare_columns rt df1 df2 file1_name file2_name numeric_cols k all_columns
                (0, detailed_rows) of
           Inl e \<Rightarrow> Inl e
         | Inr (mismatches, detailed_rows') \<Rightarrow>
             (let total_cols = int (length all_columns)
              in case match_pct total_cols mismatches of
                   Inl e \<Rightarrow> Inl e
                 | Inr match_pct' \<Rightarrow>
                     compare_keys rt df1 df2 file1_name file2_name all_columns numeric_cols keys
                       (summary_rows @
                          [\<lparr>key = k, total_columns = total_cols,
                            matched_columns = total_cols - mismatches,
                            mismatched_columns = mismatches,
                            match_percentage = match_pct',
                            status = (if mismatches = 0 then status_match
                                      else status_mismatch)\<rparr>],
                        detailed_rows', missing_rows))))"

text \<open>
  Lines 36 to 107 of \<^verbatim>\<open>compare_files\<close>, from the two loaded frames: the check of
  the key column, the re-indexing, the two sorted universes, the numeric columns and
  the loop. The three returned frames are kept as their lists of rows.
\<close>

definition compare_frames ::
  "runtime \<Rightarrow> string \<Rightarrow> string \<Rightarrow> frame \<Rightarrow> frame \<Rightarrow> string \<Rightarrow>
   error + summary_row list \<times> pydict list \<times> missing_row list" where
  "compare_frames rt file1_name file2_name df1 df2 key_column =
     (if key_column \<notin> set (columns df1) \<or> key_column \<notin> set (columns df2)
      then Inl (ValueError (key_column_msg key_column))
      else
        (let df1' = set_index key_column df1;
             df2' = set_index key_column df2
         in case py_sorted (remdups (index df1' @ index df2')) of
              Inl e \<Rightarrow> Inl e
            | Inr all_keys \<Rightarrow>
                (let all_columns = sort (remdups (columns df1' @ columns df2'))
                 in case numeric_cols_of df1' df2' all_columns of
                      Inl e \<Rightarrow> Inl e
                    | Inr numeric_cols \<Rightarrow>
                        compare_keys rt df1' df2' file1_name file2_name all_columns
                          numeric_cols all_keys ([], [], []))))"

text \<open>\<^verbatim>\<open>compare_files\<close>: both files are read before anything else happens.\<close>

definition compare_files ::
  "runtime \<Rightarrow> string \<Rightarrow> string \<Rightarrow> string \<Rightarrow>
   event list \<times> (error + summary_row list \<times> pydict list \<times> missing_row list)" where
  "compare_files rt file1 file2 key_column =
     (case read_file rt file1 of
        (ev1, Inl e) \<Rightarrow> (ev1, Inl e)
      | (ev1, Inr df1) \<Rightarrow>
          (case read_file rt file2 of
             (ev2, Inl e) \<Rightarrow> (ev1 @ ev2, Inl e)
           | (ev2, Inr df2) \<Rightarrow>
               (ev1 @ ev2,
                compare_frames rt (stem file1) (stem file2) df1 df2 key_column)))"

section \<open>The reporter\<close>



section \<open>What the loops compute\<close>

text \<open>
  The rows of a run that returns, written without accumulators. These definitions are
  not taken from the source: the lemmas on the loops relate them to it.
\<close>

text \<open>The cell the loop compares, where \<^verbatim>\<open>cell\<close> gives a scalar.\<close>

definition val_of :: "frame \<Rightarrow> pyval \<Rightarrow> string \<Rightarrow> pyval" where
  "val_of df k col = (case cell df k col of Inr (Scalar v) \<Rightarrow> v | _ \<Rightarrow> PNone)"

definition differs :: "frame \<Rightarrow> frame \<Rightarrow> pyval \<Rightarrow> string \<Rightarrow> bool" where
  "differs df1 df2 k col = py_ne (val_of df1 k col) (val_of df2 k col)"

definition rows_of_key ::
  "runtime \<Rightarrow> frame \<Rightarrow> frame \<Rightarrow> string \<Rightarrow> string \<Rightarrow> string list \<Rightarrow> string list \<Rightarrow> pyval \<Rightarrow> pydict list" where
  "rows_of_key rt df1 df2 file1_name file2_name numeric_cols cols k =
     map (\<lambda>col. mismatch_row rt file1_name file2_name numeric_cols k col
                   (val_of df1 k col) (val_of df2 k col))
         (filter (differs df1 df2 k) cols)"

definition in_both :: "frame \<Rightarrow> frame \<Rightarrow> pyval \<Rightarrow> bool" where
  "in_both df1 df2 k = (k \<in> set (index df1) \<and> k \<in> set (index df2))"

definition missing_of :: "frame \<Rightarrow> string \<Rightarrow> string \<Rightarrow> pyval \<Rightarrow> missing_row" where
  "missing_of df1 file1_name file2_name k =
     \<lparr>key = k, present_in = (if k \<in> set (index df1) then file1_name else file2_name) @ ''_only''\<rparr>"

definition summary_of :: "frame \<Rightarrow> frame \<Rightarrow> string list \<Rightarrow> pyval \<Rightarrow> summary_row" where
  "summary_of df1 df2 all_columns k =
     (let total_cols = int (length all_columns);
          mismatches = int (length (filter (differs df1 df2 k) all_columns))
      in \<lparr>key = k, total_columns = total_cols,
          matched_columns = total_cols - mismatches,
          mismatched_columns = mismatches,
          match_percentage = py_round2 (of_int (total_cols - mismatches) / of_int total_cols * 100),
          status = (if mismatches = 0 then status_match else status_mismatch)\<rparr>)"



section \<open>Concrete files\<close>

text \<open>
  A small file system for the examples. A freshly parsed frame has the row numbers as
  its index.
\<close>

definition num :: "real \<Rightarrow> pyval" where
  "num r = PFloat (Fin r)"

definition row_of :: "(string \<times> pyval) list \<Rightarrow> string \<Rightarrow> pyval" where
  "row_of kvs c = (case map_of kvs c of Some v \<Rightarrow> v | None \<Rightarrow> PNone)"

definition parsed :: "(string \<times> np_dtype) list \<Rightarrow> (string \<times> pyval) list list \<Rightarrow> frame" where
  "parsed cols data =
     \<lparr>columns = map fst cols,
      dtype = (\<lambda>c. case map_of cols c of Some d \<Rightarrow> d | None \<Rightarrow> Object),
      rows = map (\<lambda>(i, kvs). (num (real i), row_of kvs)) (enumerate 0 data)\<rparr>"

text \<open>Two files with keys 1, 2 and 2, 3 and one data column.\<close>

definition table_A :: frame where
  "table_A = parsed [(''id'', Int64), (''score'', Int64)]
     [[(''id'', num 1), (''score'', num 10)], [(''id'', num 2), (''score'', num 20)]]"

definition table_B :: frame where
  "table_B = parsed [(''id'', Int64), (''score'', Int64)]
     [[(''id'', num 2), (''score'', num 25)], [(''id'', num 3), (''score'', num 30)]]"

text \<open>A file that agrees with the first one on key 1 and differs from it on key 2.\<close>

definition table_C :: frame where
  "table_C = parsed [(''id'', Int64), (''score'', Int64)]
     [[(''id'', num 1), (''score'', num 10)], [(''id'', num 2), (''score'', num 99)]]"

text \<open>A file whose only column is the key.\<close>

definition table_ids :: frame where
  "table_ids = parsed [(''id'', Int64)] [[(''id'', num 1)]]"

text \<open>A table with a blank cell, which pandas reads as NaN; two files hold it.\<close>

definition table_blank :: frame where
  "table_blank = parsed [(''id'', Int64), (''score'', Float64)]
     [[(''id'', num 1), (''score'', PFloat NaN)], [(''id'', num 2), (''score'', num 5)]]"

text \<open>A file with a text column that holds a word for key 1 and a number for key 2.\<close>

definition table_text :: frame where
  "table_text = parsed [(''id'', Int64), (''score'', Object)]
     [[(''id'', num 1), (''score'', PStr ''n/a'')], [(''id'', num 2), (''score'', PStr ''12'')]]"

definition files :: runtime where
  "files =
     \<lparr>read_csv = (\<lambda>p. if p = ''A.csv'' then Inr table_A
                       else if p = ''B.csv'' then Inr table_B
                       else if p = ''C.csv'' then Inr table_C
                       else if p = ''ids.csv'' then Inr table_ids
                       else if p = ''blank.csv'' then Inr table_blank
                       else if p = ''blank2.csv'' then Inr table_blank
                       else if p = ''text.csv'' then Inr table_text
                       else Inl (IOError p)),
      read_excel = (\<lambda>p. Inl (IOError p)),
      float_str = (\<lambda>s. if s = ''12'' then Some (Fin 12) else None)\<rparr>"




section \<open>Properties of the loader\<close>

text \<open>
  C7. A path that ends in neither \<^verbatim>\<open>.csv\<close> nor \<^verbatim>\<open>.xlsx\<close> makes \<^verbatim>\<open>read_file\<close>
  raise the unsupported-format error, and no parser has been called: nothing was read
  from the file.
\<close>

theorem read_file_unsupported:
  assumes "\<not> endswith file_path ''.csv''" and "\<not> endswith file_path ''.xlsx''"
  shows "read_file rt file_path = ([], Inl (ValueError unsupported_msg))"
  using assms by (simp add: read_file_def)

theorem read_file_unsupported_witness:
  "\<not> endswith ''report.xls'' ''.csv'' \<and> \<not> endswith ''report.xls'' ''.xlsx''
   \<and> read_file files ''report.xls'' = ([], Inl (ValueError unsupported_msg))"
proof -
  have a: "\<not> endswith ''report.xls'' ''.csv''" by (simp add: endswith_def)
  have b: "\<not> endswith ''report.xls'' ''.xlsx''" by (simp add: endswith_def)
  show ?thesis using a b read_file_unsupported [OF a b, of files] by simp
qed

section \<open>The loops\<close>

text \<open>
  When the loop over the columns returns, it has counted and appended exactly the
  columns whose two cells differ.
\<close>

lemma compare_columns_Inr:
  "compare_columns rt df1 df2 n1 n2 ncols k cols (m, d) = Inr (m', d') \<Longrightarrow>
     m' = m + int (length (filter (differs df1 df2 k) cols)) \<and>
     d' = d @ rows_of_key rt df1 df2 n1 n2 ncols cols k"
proof (induction cols arbitrary: m d)
  case Nil
  then show ?case by (simp add: rows_of_key_def)
next
  case (Cons col cols)
  from Cons.prems obtain v1 v2 where
    c1: "cell df1 k col = Inr (Scalar v1)" and c2: "cell df2 k col = Inr (Scalar v2)"
    by (auto split: sum.splits atval.splits)
  have v: "val_of df1 k col = v1" "val_of df2 k col = v2"
    by (simp_all add: val_of_def c1 c2)
  show ?case
  proof (cases "py_ne v1 v2")
    case True
    with Cons.prems c1 c2 have
      "compare_columns rt df1 df2 n1 n2 ncols k cols
         (m + 1, d @ [mismatch_row rt n1 n2 ncols k col v1 v2]) = Inr (m', d')"
      by simp
    from Cons.IH [OF this] True v show ?thesis
      by (simp add: rows_of_key_def differs_def)
  next
    case False
    with Cons.prems c1 c2 have
      "compare_columns rt df1 df2 n1 n2 ncols k cols (m, d) = Inr (m', d')"
      by simp
    from Cons.IH [OF this] False v show ?thesis
      by (simp add: rows_of_key_def differs_def)
  qed
qed

text \<open>
  When the loop over the keys returns, each key present in both frames has given one
  summary row and its mismatch rows, each other key one missing row, all in the order
  of the keys; and a key present in both frames needs a non-empty list of columns.
\<close>

lemma compare_keys_Inr:
  "compare_keys rt df1 df2 n1 n2 all_columns ncols keys (s, d, m) = Inr (s', d', m') \<Longrightarrow>
     s' = s @ map (summary_of df1 df2 all_columns) (filter (in_both df1 df2) keys) \<and>
     d' = d @ concat (map (rows_of_key rt df1 df2 n1 n2 ncols all_columns)
                        (filter (in_both df1 df2) keys)) \<and>
     m' = m @ map (missing_of df1 n1 n2) (filter (\<lambda>k. \<not> in_both df1 df2 k) keys) \<and>
     (all_columns = [] \<longrightarrow> filter (in_both df1 df2) keys = [])"
proof (induction keys arbitrary: s d m)
  case Nil
  then show ?case by simp
next
  case (Cons k keys)
  show ?case
  proof (cases "in_both df1 df2 k")
    case False
    have "compare_keys rt df1 df2 n1 n2 all_columns ncols keys
            (s, d, m @ [missing_of df1 n1 n2 k]) = Inr (s', d', m')"
    proof (cases "k \<in> set (index df1)")
      case True
      with False have "k \<notin> set (index df2)" by (simp add: in_both_def)
      with True Cons.prems show ?thesis by (simp add: missing_of_def)
    next
      case False
      with Cons.prems show ?thesis by (simp add: missing_of_def)
    qed
    from Cons.IH [OF this] False show ?thesis by simp
  next
    case True
    then have kin: "k \<in> set (index df1)" "k \<in> set (index df2)" by (simp_all add: in_both_def)
    from Cons.prems kin obtain mm dd where
      cc: "compare_columns rt df1 df2 n1 n2 ncols k all_columns (0, d) = Inr (mm, dd)"
      by (auto split: sum.splits)
    from Cons.prems kin cc obtain pct where
      mp: "match_pct (int (length all_columns)) mm = Inr pct"
      by (auto simp: Let_def split: sum.splits)
    from compare_columns_Inr [OF cc] have
      mm: "mm = int (length (filter (differs df1 df2 k) all_columns))" and
      dd: "dd = d @ rows_of_key rt df1 df2 n1 n2 ncols all_columns k" by simp_all
    from mp have ne: "all_columns \<noteq> []" and
      pct: "pct = py_round2 (of_int (int (length all_columns) - mm) / of_int (int (length all_columns)) * 100)"
      by (auto simp: match_pct_def split: if_splits)
    have row: "\<lparr>key = k, total_columns = int (length all_columns),
            matched_columns = int (length all_columns) - mm, mismatched_columns = mm,
            match_percentage = pct,
            status = (if mm = 0 then status_match else status_mismatch)\<rparr> =
          summary_of df1 df2 all_columns k"
      unfolding summary_of_def Let_def mm [symmetric] pct by simp
    from Cons.prems kin cc mp have
      "compare_keys rt df1 df2 n1 n2 all_columns ncols keys
         (s @ [summary_of df1 df2 all_columns k], dd, m) = Inr (s', d', m')"
      by (simp add: Let_def row)
    from Cons.IH [OF this] True ne dd show ?thesis by simp
  qed
qed

section \<open>Which errors the comparator raises\<close>

lemma py_sorted_Inr:
  "py_sorted xs = Inr ys \<Longrightarrow> ys = sort_key label_rank xs"
  by (auto simp: py_sorted_def split: if_splits)

lemma py_sorted_Inl:
  "py_sorted xs = Inl e \<Longrightarrow> e = TypeError"
  by (auto simp: py_sorted_def split: if_splits)

lemma numeric_cols_of_Inl:
  "numeric_cols_of df1 df2 cols = Inl e \<Longrightarrow> \<exists>c. e = KeyError (PStr c)"
  by (induction cols arbitrary: e) (auto simp: col_dtype_def split: sum.splits if_splits)

lemma frame_at_Inl:
  "frame_at df k col = Inl e \<Longrightarrow> e = KeyError k"
  by (auto simp: frame_at_def split: list.splits)

lemma cell_Inl:
  "cell df k col = Inl e \<Longrightarrow> e = KeyError k"
  by (auto simp: cell_def dest: frame_at_Inl split: if_splits)

lemma compare_columns_Inl:
  "compare_columns rt df1 df2 n1 n2 ncols k cols acc = Inl e \<Longrightarrow>
     e = ValueError ambiguous_msg \<or> e = KeyError k"
proof (induction cols arbitrary: acc)
  case Nil
  then show ?case by simp
next
  case (Cons col cols)
  obtain m d where acc: "acc = (m, d)" by (cases acc)
  show ?case
  proof (cases "cell df1 k col")
    case (Inl e1)
    with Cons.prems acc show ?thesis by (auto dest: cell_Inl)
  next
    case c1: (Inr a1)
    show ?thesis
    proof (cases "cell df2 k col")
      case (Inl e2)
      with Cons.prems acc c1 show ?thesis by (auto dest: cell_Inl)
    next
      case c2: (Inr a2)
      show ?thesis
        using Cons.prems acc c1 c2 Cons.IH
        by (cases a1; cases a2) (auto split: if_splits)
    qed
  qed
qed

lemma match_pct_Inl:
  "match_pct t m = Inl e \<Longrightarrow> e = ZeroDivisionError"
  by (auto simp: match_pct_def split: if_splits)

lemma compare_keys_Inl:
  "compare_keys rt df1 df2 n1 n2 all_columns ncols keys acc = Inl e \<Longrightarrow>
     e = ValueError ambiguous_msg \<or> (\<exists>k. e = KeyError k) \<or> e = ZeroDivisionError"
proof (induction keys arbitrary: acc)
  case Nil
  then show ?case by simp
next
  case (Cons k keys)
  obtain s d m where acc: "acc = (s, d, m)" by (cases acc)
  show ?case
  proof (cases "in_both df1 df2 k")
    case False
    then show ?thesis using Cons.prems Cons.IH acc
      by (auto simp: in_both_def split: if_splits)
  next
    case True
    then have kin: "k \<in> set (index df1)" "k \<in> set (index df2)" by (simp_all add: in_both_def)
    show ?thesis
    proof (cases "compare_columns rt df1 df2 n1 n2 ncols k all_columns (0, d)")
      case (Inl e1)
      with Cons.prems acc kin have "e = e1" by simp
      with compare_columns_Inl [OF Inl] show ?thesis by auto
    next
      case (Inr r)
      obtain mm dd where r: "r = (mm, dd)" by (cases r)
      show ?thesis
      proof (cases "match_pct (int (length all_columns)) mm")
        case (Inl e2)
        with Cons.prems acc kin Inr r have "e = e2" by (simp add: Let_def)
        with match_pct_Inl [OF Inl] show ?thesis by simp
      next
        case pct: (Inr p)
        with Cons.prems acc kin Inr r Cons.IH show ?thesis by (simp add: Let_def)
      qed
    qed
  qed
qed

lemma key_column_msg_neq: "key_column_msg kc \<noteq> ambiguous_msg"
  by (simp add: key_column_msg_def ambiguous_msg_def)

lemma compare_frames_Inl:
  assumes "compare_frames rt n1 n2 df1 df2 kc = Inl e"
    and "kc \<in> set (columns df1)" and "kc \<in> set (columns df2)"
  shows "e \<noteq> ValueError (key_column_msg kc)"
proof -
  let ?d1 = "set_index kc df1" and ?d2 = "set_index kc df2"
  show ?thesis
  proof (cases "py_sorted (remdups (index ?d1 @ index ?d2))")
    case (Inl e1)
    with assms have "e = e1" by (simp add: compare_frames_def Let_def)
    with py_sorted_Inl [OF Inl] show ?thesis by simp
  next
    case ks: (Inr all_keys)
    let ?cols = "sort (remdups (columns ?d1 @ columns ?d2))"
    show ?thesis
    proof (cases "numeric_cols_of ?d1 ?d2 ?cols")
      case (Inl e2)
      with assms ks have "e = e2" by (simp add: compare_frames_def Let_def)
      with numeric_cols_of_Inl [OF Inl] show ?thesis by auto
    next
      case (Inr ncols)
      with assms ks have
        "compare_keys rt ?d1 ?d2 n1 n2 ?cols ncols all_keys ([], [], []) = Inl e"
        by (simp add: compare_frames_def Let_def)
      from compare_keys_Inl [OF this] key_column_msg_neq show ?thesis by auto
    qed
  qed
qed

section \<open>The check of the key column\<close>

lemma compare_files_loaded:
  assumes "read_file rt file1 = (ev1, Inr df1)" and "read_file rt file2 = (ev2, Inr df2)"
  shows "compare_files rt file1 file2 kc =
           (ev1 @ ev2, compare_frames rt (stem file1) (stem file2) df1 df2 kc)"
  using assms by (simp add: compare_files_def)

lemma read_A: "read_file files ''A.csv'' = ([ReadCsv ''A.csv''], Inr table_A)"
  by (simp add: read_file_def endswith_def files_def)

lemma read_B: "read_file files ''B.csv'' = ([ReadCsv ''B.csv''], Inr table_B)"
  by (simp add: read_file_def endswith_def files_def)

text \<open>
  C6. Once both files are loaded, \<^verbatim>\<open>compare_files\<close> raises the \<^verbatim>\<open>ValueError\<close> that
  names the key column exactly when that column is missing from the columns of one
  of the two frames. The run then ends with this error in place of the three
  outputs, after the two reads and nothing else.
\<close>

theorem key_column_checked:
  assumes "read_file rt file1 = (ev1, Inr df1)" and "read_file rt file2 = (ev2, Inr df2)"
  shows "(compare_files rt file1 file2 key_column =
            (ev1 @ ev2, Inl (ValueError (key_column_msg key_column))))
         = (key_column \<notin> set (columns df1) \<or> key_column \<notin> set (columns df2))"
proof
  assume a: "compare_files rt file1 file2 key_column =
            (ev1 @ ev2, Inl (ValueError (key_column_msg key_column)))"
  show "key_column \<notin> set (columns df1) \<or> key_column \<notin> set (columns df2)"
  proof (rule ccontr)
    assume "\<not> ?thesis"
    then have k: "key_column \<in> set (columns df1)" "key_column \<in> set (columns df2)" by simp_all
    from a have "compare_frames rt (stem file1) (stem file2) df1 df2 key_column =
        Inl (ValueError (key_column_msg key_column))"
      by (simp add: compare_files_loaded [OF assms])
    from compare_frames_Inl [OF this k] show False by simp
  qed
next
  assume "key_column \<notin> set (columns df1) \<or> key_column \<notin> set (columns df2)"
  then show "compare_files rt file1 file2 key_column =
            (ev1 @ ev2, Inl (ValueError (key_column_msg key_column)))"
    by (auto simp: compare_files_loaded [OF assms] compare_frames_def)
qed


theorem key_column_checked_witness:
  "read_file files ''A.csv'' = ([ReadCsv ''A.csv''], Inr table_A) \<and>
   read_file files ''B.csv'' = ([ReadCsv ''B.csv''], Inr table_B) \<and>
   ''player_id'' \<notin> set (columns table_A) \<and>
   compare_files files ''A.csv'' ''B.csv'' ''player_id'' =
     ([ReadCsv ''A.csv'', ReadCsv ''B.csv''], Inl (ValueError (key_column_msg ''player_id'')))"
proof -
  have c: "''player_id'' \<notin> set (columns table_A)"
    by (simp add: table_A_def parsed_def)
  show ?thesis
    using key_column_checked [OF read_A read_B, of "''player_id''"] c read_A read_B by simp
qed

section \<open>The outputs of a run that returns\<close>

text \<open>
  When \<^verbatim>\<open>compare_files\<close> returns from two loaded frames, its three outputs are
  determined by the two sorted universes: the summary rows and the mismatch rows of
  the keys present in both frames, and the missing rows of the others.
\<close>

lemma compare_frames_Inr:
  assumes "compare_frames rt n1 n2 df1 df2 kc = Inr (s, d, m)"
  defines "d1 \<equiv> set_index kc df1" and "d2 \<equiv> set_index kc df2"
  defines "cols \<equiv> sort (remdups (columns d1 @ columns d2))"
  defines "ks \<equiv> sort_key label_rank (remdups (index d1 @ index d2))"
  shows "kc \<in> set (columns df1) \<and> kc \<in> set (columns df2) \<and>
         s = map (summary_of d1 d2 cols) (filter (in_both d1 d2) ks) \<and>
         m = map (missing_of d1 n1 n2) (filter (\<lambda>k. \<not> in_both d1 d2 k) ks) \<and>
         (\<exists>ncols. numeric_cols_of d1 d2 cols = Inr ncols \<and>
            d = concat (map (rows_of_key rt d1 d2 n1 n2 ncols cols) (filter (in_both d1 d2) ks))) \<and>
         (cols = [] \<longrightarrow> filter (in_both d1 d2) ks = [])"
proof -
  from assms(1) have kc: "kc \<in> set (columns df1)" "kc \<in> set (columns df2)"
    by (auto simp: compare_frames_def split: if_splits)
  from assms(1) kc obtain all_keys where
    ak: "py_sorted (remdups (index d1 @ index d2)) = Inr all_keys"
    by (auto simp: compare_frames_def Let_def d1_def d2_def split: sum.splits)
  then have ks: "all_keys = ks" by (simp add: ks_def py_sorted_Inr)
  from assms(1) kc ak obtain ncols where
    nc: "numeric_cols_of d1 d2 cols = Inr ncols"
    by (auto simp: compare_frames_def Let_def d1_def d2_def cols_def split: sum.splits)
  from assms(1) kc ak nc have
    "compare_keys rt d1 d2 n1 n2 cols ncols ks ([], [], []) = Inr (s, d, m)"
    by (simp add: compare_frames_def Let_def d1_def d2_def cols_def ks)
  from compare_keys_Inr [OF this] kc nc show ?thesis by simp
qed

lemma key_summary_of: "key (summary_of d1 d2 cols k) = k"
  by (simp add: summary_of_def Let_def)




section \<open>When the comparator returns\<close>






lemma columns_set_index: "columns (set_index kc df) = removeAll kc (columns df)"
  by (simp add: set_index_def)



section \<open>Runs on the concrete files\<close>

lemmas run_defs = compare_files_def read_file_def endswith_def files_def parsed_def
  compare_frames_def set_index_def index_def py_sorted_def num_def row_of_def
  col_dtype_def cell_def frame_at_def py_ne_def mismatch_row_def dict_of_def difference_def
  match_pct_def py_round2_def round_half_even_def stem_def path_name_def

lemma read_ids: "read_file files ''ids.csv'' = ([ReadCsv ''ids.csv''], Inr table_ids)"
  by (simp add: read_file_def endswith_def files_def)

lemma compare_A_B:
  "compare_files files ''A.csv'' ''B.csv'' ''id'' =
     ([ReadCsv ''A.csv'', ReadCsv ''B.csv''],
      Inr ([\<lparr>key = num 2, total_columns = 1, matched_columns = 0, mismatched_columns = 1,
             match_percentage = 0, status = status_mismatch\<rparr>],
           [[(''key'', num 2), (''column_name'', PStr ''score''), (''A'', num 20),
             (''B'', num 25), (''difference'', num 5)]],
           [\<lparr>key = num 1, present_in = ''A_only''\<rparr>,
            \<lparr>key = num 3, present_in = ''B_only''\<rparr>]))"
  by (simp add: run_defs table_A_def table_B_def)


section \<open>Every key goes to one output\<close>






section \<open>Tables with no column besides the key\<close>

lemma compare_keys_no_columns:
  assumes "k \<in> set keys" and "in_both df1 df2 k"
  shows "compare_keys rt df1 df2 n1 n2 [] ncols keys acc = Inl ZeroDivisionError"
  using assms(1)
proof (induction keys arbitrary: acc)
  case Nil
  then show ?case by simp
next
  case (Cons x keys)
  obtain s d m where acc: "acc = (s, d, m)" using prod_cases3 by blast
  show ?case
  proof (cases "in_both df1 df2 x")
    case True
    then show ?thesis by (simp add: acc in_both_def match_pct_def)
  next
    case False
    with Cons.prems assms(2) have "k \<in> set keys" by auto
    from Cons.IH [OF this] False show ?thesis
      by (auto simp: acc in_both_def)
  qed
qed

lemma columns_only_key:
  "set (columns df) = {kc} \<Longrightarrow> columns (set_index kc df) = []"
  by (auto simp: columns_set_index removeAll_id filter_empty_conv removeAll_filter_not_eq)

text \<open>
  C10. When the key column is the only column of both tables and some key is in both,
  \<^verbatim>\<open>compare_files\<close> returns no outputs: unless sorting the keys has already raised, the
  division of line 92 raises \<^verbatim>\<open>ZeroDivisionError\<close> at the first such key. The
  percentage is computed exactly when the number of columns is not zero.
\<close>

theorem key_only_tables_raise:
  assumes "read_file rt file1 = (ev1, Inr df1)" and "read_file rt file2 = (ev2, Inr df2)"
    and "set (columns df1) = {key_column}" and "set (columns df2) = {key_column}"
    and "k \<in> set (index (set_index key_column df1))"
    and "k \<in> set (index (set_index key_column df2))"
  shows "compare_files rt file1 file2 key_column =
           (ev1 @ ev2,
            case py_sorted (remdups (index (set_index key_column df1) @
                                     index (set_index key_column df2))) of
              Inl e \<Rightarrow> Inl e
            | Inr all_keys \<Rightarrow> Inl ZeroDivisionError) \<and>
         ((\<exists>pct. match_pct total_cols mismatches = Inr pct) = (total_cols \<noteq> 0)) \<and>
         ((match_pct total_cols mismatches = Inl ZeroDivisionError) = (total_cols = 0))"
proof -
  let ?d1 = "set_index key_column df1" and ?d2 = "set_index key_column df2"
  let ?ks = "remdups (index ?d1 @ index ?d2)"
  from assms(3,4) have kc: "key_column \<in> set (columns df1)" "key_column \<in> set (columns df2)"
    by simp_all
  have cols: "columns ?d1 = []" "columns ?d2 = []"
    using assms(3,4) by (simp_all add: columns_only_key)
  have run: "compare_frames rt (stem file1) (stem file2) df1 df2 key_column =
      (case py_sorted ?ks of Inl e \<Rightarrow> Inl e | Inr all_keys \<Rightarrow> Inl ZeroDivisionError)"
  proof (cases "py_sorted ?ks")
    case (Inl e)
    with kc show ?thesis by (simp add: compare_frames_def Let_def)
  next
    case (Inr all_keys)
    then have "all_keys = sort_key label_rank ?ks" by (rule py_sorted_Inr)
    with assms(5) have "k \<in> set all_keys" by simp
    moreover from assms(5,6) have "in_both ?d1 ?d2 k" by (simp add: in_both_def)
    ultimately have "compare_keys rt ?d1 ?d2 (stem file1) (stem file2) [] [] all_keys ([], [], [])
        = Inl ZeroDivisionError" by (rule compare_keys_no_columns)
    with kc Inr cols show ?thesis by (simp add: compare_frames_def Let_def)
  qed
  have "(\<exists>pct. match_pct total_cols mismatches = Inr pct) = (total_cols \<noteq> 0)"
    and "(match_pct total_cols mismatches = Inl ZeroDivisionError) = (total_cols = 0)"
    by (simp_all add: match_pct_def)
  with run show ?thesis by (simp add: compare_files_loaded [OF assms(1,2)])
qed

theorem key_only_tables_raise_witness:
  "read_file files ''ids.csv'' = ([ReadCsv ''ids.csv''], Inr table_ids) \<and>
   set (columns table_ids) = {''id''} \<and>
   num 1 \<in> set (index (set_index ''id'' table_ids)) \<and>
   compare_files files ''ids.csv'' ''ids.csv'' ''id'' =
     ([ReadCsv ''ids.csv'', ReadCsv ''ids.csv''], Inl ZeroDivisionError)"
proof -
  have c: "set (columns table_ids) = {''id''}" by (simp add: table_ids_def parsed_def)
  have k: "num 1 \<in> set (index (set_index ''id'' table_ids))"
    by (simp add: table_ids_def parsed_def set_index_def index_def row_of_def)
  have s: "py_sorted (remdups (index (set_index ''id'' table_ids) @
                               index (set_index ''id'' table_ids))) = Inr [num 1]"
    by (simp add: table_ids_def parsed_def set_index_def index_def row_of_def py_sorted_def)
  show ?thesis
    using key_only_tables_raise [OF read_ids read_ids c c k k, of 0 0] c k s read_ids by simp
qed

section \<open>The label of a missing row\<close>

lemma sorted_three_keys:
  assumes "set xs = {num 1, num 2, num 3}"
  shows "sort_key label_rank (remdups xs) = [num 1, num 2, num 3]"
proof -
  let ?ys = "sort_key label_rank (remdups xs)"
  have set_ys: "set ?ys = {num 1, num 2, num 3}" using assms by simp
  have "inj_on label_rank (set ?ys)" unfolding set_ys by (simp add: num_def)
  then have d: "distinct (map label_rank ?ys)" by (simp add: distinct_map)
  have s: "sorted (map label_rank ?ys)" by simp
  have "set (map label_rank ?ys) = set [(1, []), (2, []), (3, [])]"
    using set_ys by (simp add: num_def)
  from sorted_distinct_set_unique [OF s d _ _ this]
  have m: "map label_rank ?ys = [(1, []), (2, []), (3, [])]" by simp
  then obtain a b c where ys: "?ys = [a, b, c]"
    and r: "label_rank a = (1, [])" "label_rank b = (2, [])" "label_rank c = (3, [])"
    by (auto simp: map_eq_Cons_conv)
  from ys set_ys have "a \<in> {num 1, num 2, num 3}" "b \<in> {num 1, num 2, num 3}"
    "c \<in> {num 1, num 2, num 3}" by auto
  with r have "a = num 1" "b = num 2" "c = num 3" by (auto simp: num_def)
  with ys show ?thesis by simp
qed

text \<open>
  C8, as amended. On a run that returns, every missing row belongs to a key that is in
  one table only and is labelled with the stem of the file that holds the key,
  followed by \<^verbatim>\<open>_only\<close>. For a first table with keys 1, 2 and a second with keys 2, 3
  the missing rows are key 1, labelled with the first file, then key 3, labelled with
  the second file, and the only summary row is that of key 2.
\<close>

theorem missing_rows_labelled:
  assumes "read_file rt file1 = (ev1, Inr df1)" and "read_file rt file2 = (ev2, Inr df2)"
    and "compare_files rt file1 file2 key_column = (ev, Inr (summary, detailed, missing))"
  shows "(\<forall>row \<in> set missing.
            (key row \<in> set (index (set_index key_column df1)) \<and>
             key row \<notin> set (index (set_index key_column df2)) \<and>
             present_in row = stem file1 @ ''_only'') \<or>
            (key row \<in> set (index (set_index key_column df2)) \<and>
             key row \<notin> set (index (set_index key_column df1)) \<and>
             present_in row = stem file2 @ ''_only'')) \<and>
         (set (index (set_index key_column df1)) = {num 1, num 2} \<and>
          set (index (set_index key_column df2)) = {num 2, num 3} \<longrightarrow>
          missing = [\<lparr>key = num 1, present_in = stem file1 @ ''_only''\<rparr>,
                     \<lparr>key = num 3, present_in = stem file2 @ ''_only''\<rparr>] \<and>
          map key summary = [num 2])"
proof -
  let ?d1 = "set_index key_column df1" and ?d2 = "set_index key_column df2"
  let ?ks = "sort_key label_rank (remdups (index ?d1 @ index ?d2))"
  from assms have
    "compare_frames rt (stem file1) (stem file2) df1 df2 key_column =
       Inr (summary, detailed, missing)"
    by (simp add: compare_files_loaded)
  from compare_frames_Inr [OF this] have
    s: "summary = map (summary_of ?d1 ?d2
           (sort (remdups (columns ?d1 @ columns ?d2)))) (filter (in_both ?d1 ?d2) ?ks)" and
    m: "missing = map (missing_of ?d1 (stem file1) (stem file2))
           (filter (\<lambda>k. \<not> in_both ?d1 ?d2 k) ?ks)"
    by simp_all
  have general: "\<forall>row \<in> set missing.
            (key row \<in> set (index ?d1) \<and> key row \<notin> set (index ?d2) \<and>
             present_in row = stem file1 @ ''_only'') \<or>
            (key row \<in> set (index ?d2) \<and> key row \<notin> set (index ?d1) \<and>
             present_in row = stem file2 @ ''_only'')"
    unfolding m by (auto simp: missing_of_def in_both_def)
  have scenario: "missing = [\<lparr>key = num 1, present_in = stem file1 @ ''_only''\<rparr>,
                     \<lparr>key = num 3, present_in = stem file2 @ ''_only''\<rparr>] \<and>
          map key summary = [num 2]"
    if a: "set (index ?d1) = {num 1, num 2}" "set (index ?d2) = {num 2, num 3}"
  proof -
    from a have "set (index ?d1 @ index ?d2) = {num 1, num 2, num 3}" by auto
    then have ks: "?ks = [num 1, num 2, num 3]" by (rule sorted_three_keys)
    have nb: "\<not> in_both ?d1 ?d2 (num 1)" "in_both ?d1 ?d2 (num 2)" "\<not> in_both ?d1 ?d2 (num 3)"
      using a by (simp_all add: in_both_def num_def)
    have "num 1 \<in> set (index ?d1)" "num 3 \<notin> set (index ?d1)"
      using a by (simp_all add: num_def)
    with nb show ?thesis unfolding s m ks
      by (simp add: missing_of_def key_summary_of)
  qed
  from general scenario show ?thesis by blast
qed

theorem missing_rows_labelled_witness:
  "read_file files ''A.csv'' = ([ReadCsv ''A.csv''], Inr table_A) \<and>
   read_file files ''B.csv'' = ([ReadCsv ''B.csv''], Inr table_B) \<and>
   set (index (set_index ''id'' table_A)) = {num 1, num 2} \<and>
   set (index (set_index ''id'' table_B)) = {num 2, num 3} \<and>
   stem ''A.csv'' = ''A'' \<and> stem ''B.csv'' = ''B'' \<and>
   (\<exists>ev summary detailed.
      compare_files files ''A.csv'' ''B.csv'' ''id'' =
        (ev, Inr (summary, detailed,
                  [\<lparr>key = num 1, present_in = ''A_only''\<rparr>,
                   \<lparr>key = num 3, present_in = ''B_only''\<rparr>])) \<and>
      map key summary = [num 2])"
proof -
  have a: "set (index (set_index ''id'' table_A)) = {num 1, num 2}"
    and b: "set (index (set_index ''id'' table_B)) = {num 2, num 3}"
    by (auto simp: table_A_def table_B_def parsed_def set_index_def index_def row_of_def)
  have st: "stem ''A.csv'' = ''A''" "stem ''B.csv'' = ''B''"
    by (simp_all add: stem_def path_name_def)
  from missing_rows_labelled [OF read_A read_B compare_A_B] a b st compare_A_B read_A read_B
  show ?thesis by simp
qed

text \<open>
  The claim as it was stated labels key 3 with \<^verbatim>\<open>A_only\<close>; the run on the files A
  and B labels it \<^verbatim>\<open>B_only\<close>, after the file that holds it.
\<close>

theorem missing_rows_labelled_counterexample:
  "set (index (set_index ''id'' table_A)) = {num 1, num 2} \<and>
   set (index (set_index ''id'' table_B)) = {num 2, num 3} \<and>
   compare_files files ''A.csv'' ''B.csv'' ''id'' =
     ([ReadCsv ''A.csv'', ReadCsv ''B.csv''],
      Inr ([\<lparr>key = num 2, total_columns = 1, matched_columns = 0, mismatched_columns = 1,
             match_percentage = 0, status = status_mismatch\<rparr>],
           [[(''key'', num 2), (''column_name'', PStr ''score''), (''A'', num 20),
             (''B'', num 25), (''difference'', num 5)]],
           [\<lparr>key = num 1, present_in = ''A_only''\<rparr>,
            \<lparr>key = num 3, present_in = ''B_only''\<rparr>])) \<and>
   \<lparr>key = num 3, present_in = ''A_only''\<rparr> \<notin>
     set [\<lparr>key = num 1, present_in = ''A_only''\<rparr>, \<lparr>key = num 3, present_in = ''B_only''\<rparr>]"
proof -
  have a: "set (index (set_index ''id'' table_A)) = {num 1, num 2}"
    and b: "set (index (set_index ''id'' table_B)) = {num 2, num 3}"
    by (auto simp: table_A_def table_B_def parsed_def set_index_def index_def row_of_def)
  have "num 3 \<noteq> num 1" by (simp add: num_def)
  with a b show ?thesis by (simp add: compare_A_B)
qed

section \<open>The difference of a numeric mismatch\<close>

lemma numeric_cols_of_Inr:
  "numeric_cols_of df1 df2 cols = Inr ns \<Longrightarrow>
     ns = filter (\<lambda>c. is_np_number (dtype df1 c) \<or> is_np_number (dtype df2 c)) cols"
  by (induction cols arbitrary: ns) (auto simp: col_dtype_def split: sum.splits if_splits)



lemma compare_columns_scalars:
  "compare_columns rt df1 df2 n1 n2 ncols k cols acc = Inr r \<Longrightarrow> col \<in> set cols \<Longrightarrow>
     cell df1 k col = Inr (Scalar (val_of df1 k col)) \<and>
     cell df2 k col = Inr (Scalar (val_of df2 k col))"
proof (induction cols arbitrary: acc)
  case Nil
  then show ?case by simp
next
  case (Cons c cols)
  obtain m d where acc: "acc = (m, d)" by (cases acc)
  from Cons.prems(1) acc obtain v1 v2 where
    c1: "cell df1 k c = Inr (Scalar v1)" and c2: "cell df2 k c = Inr (Scalar v2)"
    by (auto split: sum.splits atval.splits)
  show ?case
  proof (cases "col = c")
    case True
    with c1 c2 show ?thesis by (simp add: val_of_def)
  next
    case False
    with Cons.prems(2) have "col \<in> set cols" by simp
    moreover from Cons.prems(1) acc c1 c2 obtain acc' where
      "compare_columns rt df1 df2 n1 n2 ncols k cols acc' = Inr r"
      by (auto split: if_splits)
    ultimately show ?thesis by (rule Cons.IH [rotated])
  qed
qed

lemma compare_keys_scalars:
  "compare_keys rt df1 df2 n1 n2 all_columns ncols keys acc = Inr r \<Longrightarrow>
     k \<in> set keys \<Longrightarrow> in_both df1 df2 k \<Longrightarrow> col \<in> set all_columns \<Longrightarrow>
     cell df1 k col = Inr (Scalar (val_of df1 k col)) \<and>
     cell df2 k col = Inr (Scalar (val_of df2 k col))"
proof (induction keys arbitrary: acc)
  case Nil
  then show ?case by simp
next
  case (Cons x keys)
  obtain s d m where acc: "acc = (s, d, m)" using prod_cases3 by blast
  show ?case
  proof (cases "in_both df1 df2 x")
    case False
    with Cons.prems(2,3) have k: "k \<in> set keys" by auto
    from Cons.prems(1) acc False obtain acc' where
      "compare_keys rt df1 df2 n1 n2 all_columns ncols keys acc' = Inr r"
      by (auto simp: in_both_def split: if_splits)
    from Cons.IH [OF this k Cons.prems(3,4)] show ?thesis .
  next
    case True
    then have xin: "x \<in> set (index df1)" "x \<in> set (index df2)" by (simp_all add: in_both_def)
    from Cons.prems(1) acc xin obtain r1 where
      cc: "compare_columns rt df1 df2 n1 n2 ncols x all_columns (0, d) = Inr r1"
      by (auto split: sum.splits)
    show ?thesis
    proof (cases "k = x")
      case True
      with compare_columns_scalars [OF cc Cons.prems(4)] show ?thesis by simp
    next
      case False
      with Cons.prems(2) have k: "k \<in> set keys" by simp
      from Cons.prems(1) acc xin cc obtain acc' where
        "compare_keys rt df1 df2 n1 n2 all_columns ncols keys acc' = Inr r"
        by (cases r1) (auto simp: Let_def split: sum.splits)
      from Cons.IH [OF this k Cons.prems(3,4)] show ?thesis .
    qed
  qed
qed

lemma compare_frames_scalars:
  assumes "compare_frames rt n1 n2 df1 df2 kc = Inr r"
    and "k \<in> set (index (set_index kc df1))" and "k \<in> set (index (set_index kc df2))"
    and "col \<in> set (columns (set_index kc df1)) \<union> set (columns (set_index kc df2))"
  shows "cell (set_index kc df1) k col = Inr (Scalar (val_of (set_index kc df1) k col)) \<and>
         cell (set_index kc df2) k col = Inr (Scalar (val_of (set_index kc df2) k col))"
proof -
  let ?d1 = "set_index kc df1" and ?d2 = "set_index kc df2"
  let ?cols = "sort (remdups (columns ?d1 @ columns ?d2))"
  let ?ks = "sort_key label_rank (remdups (index ?d1 @ index ?d2))"
  from assms(1) have kc: "kc \<in> set (columns df1)" "kc \<in> set (columns df2)"
    by (auto simp: compare_frames_def split: if_splits)
  from assms(1) kc obtain all_keys where
    ak: "py_sorted (remdups (index ?d1 @ index ?d2)) = Inr all_keys"
    by (auto simp: compare_frames_def Let_def split: sum.splits)
  then have ks: "all_keys = ?ks" by (rule py_sorted_Inr)
  from assms(1) kc ak obtain ncols where
    nc: "numeric_cols_of ?d1 ?d2 ?cols = Inr ncols"
    by (auto simp: compare_frames_def Let_def split: sum.splits)
  from assms(1) kc ak nc have
    run: "compare_keys rt ?d1 ?d2 n1 n2 ?cols ncols ?ks ([], [], []) = Inr r"
    by (simp add: compare_frames_def Let_def ks)
  have "k \<in> set ?ks" using assms(2) by simp
  moreover have "in_both ?d1 ?d2 k" using assms(2,3) by (simp add: in_both_def)
  moreover have "col \<in> set ?cols" using assms(4) by simp
  ultimately show ?thesis by (rule compare_keys_scalars [OF run])
qed





section \<open>The match percentage\<close>

lemma round_half_even_bounds:
  "real_of_int (round_half_even x) \<le> x + 1 / 2 \<and> x - 1 / 2 \<le> real_of_int (round_half_even x)"
  unfolding round_half_even_def Let_def by (auto; linarith)

lemma round_half_even_of_int: "round_half_even (of_int n) = n"
  by (simp add: round_half_even_def)

lemma round_half_even_mono_int:
  assumes "of_int a \<le> x" and "x \<le> of_int b"
  shows "a \<le> round_half_even x \<and> round_half_even x \<le> b"
proof -
  have f: "a \<le> \<lfloor>x\<rfloor>" using assms(1) by (simp add: le_floor_iff)
  have "round_half_even x = \<lfloor>x\<rfloor> \<or> round_half_even x = \<lfloor>x\<rfloor> + 1"
    by (auto simp: round_half_even_def Let_def)
  moreover have "round_half_even x \<le> b"
  proof (cases "x = of_int b")
    case True
    then show ?thesis by (simp add: round_half_even_of_int)
  next
    case False
    with assms(2) have "x < of_int b" by simp
    then have "\<lfloor>x\<rfloor> < b" by (simp add: floor_less_iff)
    moreover have "round_half_even x \<le> \<lfloor>x\<rfloor> + 1"
      by (auto simp: round_half_even_def Let_def)
    ultimately show ?thesis by simp
  qed
  ultimately show ?thesis using f by auto
qed

lemma pct_facts:
  fixes t m :: int
  assumes "0 < t" and "0 \<le> m" and "m \<le> t"
  defines "p \<equiv> py_round2 (of_int (t - m) / of_int t * 100)"
  shows "0 \<le> p \<and> p \<le> 100 \<and> (m = 0 \<longrightarrow> p = 100) \<and> (p = 100 \<longrightarrow> 20000 * m \<le> t)"
proof -
  define q where "q = real_of_int (t - m) / real_of_int t"
  define y where "y = q * 100 * 100"
  have tpos: "0 < real_of_int t" using assms(1) by simp
  have q0: "0 \<le> q" using assms by (simp add: q_def)
  have q1: "q \<le> 1" using assms by (simp add: q_def divide_le_eq)
  have y0: "real_of_int 0 \<le> y" using q0 by (simp add: y_def)
  have y1: "y \<le> real_of_int 10000" using q1 by (simp add: y_def)
  from round_half_even_mono_int [OF y0 y1]
  have r: "0 \<le> round_half_even y" "round_half_even y \<le> 10000" by simp_all
  have p: "p = real_of_int (round_half_even y) / 100"
    by (simp add: p_def py_round2_def y_def q_def)
  have b: "0 \<le> p \<and> p \<le> 100" using r unfolding p by simp
  have z: "p = 100" if "m = 0"
  proof -
    from that assms(1) have "q = 1" by (simp add: q_def)
    then have "y = real_of_int 10000" by (simp add: y_def)
    then have "round_half_even y = 10000" by (simp only: round_half_even_of_int)
    then show ?thesis unfolding p by simp
  qed
  have c: "20000 * m \<le> t" if "p = 100"
  proof -
    from that have "real_of_int (round_half_even y) = 10000" unfolding p by simp
    with round_half_even_bounds [of y] have "19999 / 2 \<le> y" by linarith
    then have "19999 / 20000 \<le> q" by (simp add: y_def)
    then have "19999 / 20000 * real_of_int t \<le> real_of_int (t - m)"
      using tpos by (simp add: q_def pos_le_divide_eq)
    then have "real_of_int (20000 * m) \<le> real_of_int t" by simp
    then show ?thesis by (simp only: of_int_le_iff)
  qed
  from b z c show ?thesis by blast
qed


lemma summary_of_fields:
  "total_columns (summary_of d1 d2 cols k) = int (length cols)"
  "mismatched_columns (summary_of d1 d2 cols k) = int (length (filter (differs d1 d2 k) cols))"
  "matched_columns (summary_of d1 d2 cols k) =
     int (length cols) - int (length (filter (differs d1 d2 k) cols))"
  "match_percentage (summary_of d1 d2 cols k) =
     py_round2 (of_int (int (length cols) - int (length (filter (differs d1 d2 k) cols))) /
                of_int (int (length cols)) * 100)"
  "status (summary_of d1 d2 cols k) =
     (if filter (differs d1 d2 k) cols = [] then status_match else status_mismatch)"
  by (simp_all add: summary_of_def Let_def)



subsection \<open>A run on wide tables\<close>












section \<open>Two copies of one table\<close>

text \<open>
  C3. The code on two files that hold the same table with a blank cell: the blank is
  NaN in both frames, \<^verbatim>\<open>val1 != val2\<close> is true for it, and the run returns a
  mismatch row and a summary row with percentage 0 for key 1.
\<close>

theorem identical_tables_with_blank_cell:
  "read_file files ''blank.csv'' = ([ReadCsv ''blank.csv''], Inr table_blank) \<and>
   read_file files ''blank2.csv'' = ([ReadCsv ''blank2.csv''], Inr table_blank) \<and>
   compare_files files ''blank.csv'' ''blank2.csv'' ''id'' =
     ([ReadCsv ''blank.csv'', ReadCsv ''blank2.csv''],
      Inr ([\<lparr>key = num 1, total_columns = 1, matched_columns = 0, mismatched_columns = 1,
             match_percentage = 0, status = status_mismatch\<rparr>,
            \<lparr>key = num 2, total_columns = 1, matched_columns = 1, mismatched_columns = 0,
             match_percentage = 100, status = status_match\<rparr>],
           [[(''key'', num 1), (''column_name'', PStr ''score''), (''blank'', PFloat NaN),
             (''blank2'', PFloat NaN), (''difference'', PFloat NaN)]],
           []))"
  by (simp add: run_defs table_blank_def)

text \<open>
  Without a missing cell the comparison behaves as expected: when the run on two copies
  of a table returns and no cell of the table is NaN, there is no mismatch row and no
  missing row, and every summary row has percentage 100.
\<close>

lemma frame_at_scalar_row:
  assumes "frame_at df k col = Inr (Scalar v)"
  shows "\<exists>r. (k, r) \<in> set (rows df) \<and> v = r col"
proof -
  let ?hits = "filter (\<lambda>(k', _). k' = k) (rows df)"
  from assms obtain x where h: "?hits = [x]" and v: "v = (\<lambda>(_, r). r col) x"
    by (auto simp: frame_at_def split: list.splits)
  from h have "x \<in> set ?hits" by simp
  then have "x \<in> set (rows df)" "fst x = k" by auto
  with v show ?thesis by (cases x) auto
qed

lemma identical_tables_without_nan:
  assumes run: "compare_frames rt n1 n2 df df kc = Inr (s, d, m)"
    and clean: "\<And>k r c. (k, r) \<in> set (rows df) \<Longrightarrow> c \<in> set (columns df) \<Longrightarrow> r c \<noteq> PFloat NaN"
  shows "d = [] \<and> m = [] \<and>
         (\<forall>row \<in> set s. mismatched_columns row = 0 \<and> match_percentage row = 100 \<and>
                          status row = status_match)"
proof -
  define d1 where "d1 = set_index kc df"
  define cols where "cols = sort (remdups (columns d1 @ columns d1))"
  define ks where "ks = sort_key label_rank (remdups (index d1 @ index d1))"
  from compare_frames_Inr [OF run] obtain ncols where
    s: "s = map (summary_of d1 d1 cols) (filter (in_both d1 d1) ks)" and
    m: "m = map (missing_of d1 n1 n2) (filter (\<lambda>k. \<not> in_both d1 d1 k) ks)" and
    d: "d = concat (map (rows_of_key rt d1 d1 n1 n2 ncols cols) (filter (in_both d1 d1) ks))" and
    ne: "cols = [] \<longrightarrow> filter (in_both d1 d1) ks = []"
    unfolding d1_def cols_def ks_def by blast
  have all_in: "in_both d1 d1 k" if "k \<in> set ks" for k
    using that by (simp add: in_both_def ks_def)
  then have "filter (\<lambda>k. \<not> in_both d1 d1 k) ks = []" by (simp add: filter_empty_conv)
  then have m': "m = []" by (simp add: m)
  have same: "\<not> differs d1 d1 k col" if k: "k \<in> set ks" and col: "col \<in> set cols" for k col
  proof -
    from k have ki: "k \<in> set (index (set_index kc df))" by (simp add: ks_def d1_def)
    from col have ci: "col \<in> set (columns (set_index kc df)) \<union> set (columns (set_index kc df))"
      by (simp add: cols_def d1_def)
    from compare_frames_scalars [OF run ki ki ci]
    have c: "cell d1 k col = Inr (Scalar (val_of d1 k col))" by (simp add: d1_def)
    from col have cd: "col \<in> set (columns d1)" by (simp add: cols_def)
    with c have "frame_at d1 k col = Inr (Scalar (val_of d1 k col))" by (simp add: cell_def)
    from frame_at_scalar_row [OF this] obtain r where
      r: "(k, r) \<in> set (rows d1)" and v: "val_of d1 k col = r col" by blast
    from r obtain k0 where "(k0, r) \<in> set (rows df)"
      by (auto simp: d1_def set_index_def)
    moreover from cd have "col \<in> set (columns df)" by (simp add: d1_def set_index_def)
    ultimately have "r col \<noteq> PFloat NaN" by (rule clean)
    with v show ?thesis by (simp add: differs_def py_ne_def)
  qed
  have nodiff: "filter (differs d1 d1 k) cols = []" if "k \<in> set ks" for k
    using same [OF that] by (simp add: filter_empty_conv)
  have "rows_of_key rt d1 d1 n1 n2 ncols cols k = []" if "k \<in> set ks" for k
    by (simp add: rows_of_key_def nodiff [OF that])
  then have d': "d = []" unfolding d by simp
  have rows: "mismatched_columns row = 0 \<and> match_percentage row = 100 \<and>
              status row = status_match" if "row \<in> set s" for row
  proof -
    from that s obtain k where k: "k \<in> set ks" and kf: "k \<in> set (filter (in_both d1 d1) ks)"
      and r: "row = summary_of d1 d1 cols k"
      by auto
    from kf have "filter (in_both d1 d1) ks \<noteq> []" by (metis empty_iff empty_set)
    with ne have "cols \<noteq> []" by blast
    then have t: "0 < int (length cols)" by simp
    have "match_percentage row =
        py_round2 (real_of_int (int (length cols) - 0) / real_of_int (int (length cols)) * 100)"
      unfolding r summary_of_fields nodiff [OF k] by simp
    also have "\<dots> = 100"
    proof -
      have z: "(0::int) \<le> 0" and le: "(0::int) \<le> int (length cols)" by simp_all
      from pct_facts [OF t z le] show ?thesis by blast
    qed
    finally have "match_percentage row = 100" .
    moreover have "mismatched_columns row = 0" "status row = status_match"
      unfolding r summary_of_fields nodiff [OF k] by simp_all
    ultimately show ?thesis by blast
  qed
  from d' m' rows show ?thesis by blast
qed

section \<open>Swapping the two files\<close>

text \<open>
  C4. The code on a file with a numeric column and a file without it: in this order
  the run returns and reports the column as a mismatch for key 1; with the files
  swapped, the search for numeric columns looks the column up in the first frame and
  the run ends in \<^verbatim>\<open>KeyError\<close>.
\<close>

theorem swapped_files_key_error:
  "compare_files files ''A.csv'' ''ids.csv'' ''id'' =
     ([ReadCsv ''A.csv'', ReadCsv ''ids.csv''],
      Inr ([\<lparr>key = num 1, total_columns = 1, matched_columns = 0, mismatched_columns = 1,
             match_percentage = 0, status = status_mismatch\<rparr>],
           [[(''key'', num 1), (''column_name'', PStr ''score''), (''A'', num 10),
             (''ids'', PNone), (''difference'', PNone)]],
           [\<lparr>key = num 2, present_in = ''A_only''\<rparr>])) \<and>
   compare_files files ''ids.csv'' ''A.csv'' ''id'' =
     ([ReadCsv ''ids.csv'', ReadCsv ''A.csv''], Inl (KeyError (PStr ''score'')))"
  by (simp add: run_defs table_A_def table_ids_def)

text \<open>
  When the run returns for both orders of the files, the two runs agree on the summary
  rows and the missing rows, and their mismatch rows are those of the same keys and
  columns with the two values exchanged; the difference stored in either order is the
  negation of the other.
\<close>

lemma fsub_swap: "fsub a b = fneg (fsub b a)"
  by (cases a; cases b) simp_all

lemma difference_swap: "difference rt val2 val1 = py_neg (difference rt val1 val2)"
proof (cases "py_float rt val1")
  case None
  then show ?thesis by (simp add: difference_def split: option.splits)
next
  case a: (Some a)
  show ?thesis
  proof (cases "py_float rt val2")
    case None
    then show ?thesis by (simp add: difference_def split: option.splits)
  next
    case (Some b)
    with a fsub_swap [of a b] show ?thesis by (simp add: difference_def)
  qed
qed

lemma py_ne_sym: "py_ne a b = py_ne b a"
  by (auto simp: py_ne_def)

lemma differs_sym: "differs d2 d1 k col = differs d1 d2 k col"
  by (simp add: differs_def py_ne_sym)

lemma in_both_sym: "in_both d2 d1 k = in_both d1 d2 k"
  by (auto simp: in_both_def)

lemma filter_differs_sym: "filter (differs d2 d1 k) cols = filter (differs d1 d2 k) cols"
  by (rule filter_cong [OF refl]) (rule differs_sym)

lemma summary_of_sym: "summary_of d2 d1 cols k = summary_of d1 d2 cols k"
  unfolding summary_of_def filter_differs_sym [of d2 d1] ..

lemma missing_of_sym:
  assumes "\<not> in_both d1 d2 k" and "k \<in> set (index d1) \<union> set (index d2)"
  shows "missing_of d2 n2 n1 k = missing_of d1 n1 n2 k"
  using assms by (auto simp: missing_of_def in_both_def)

lemma sort_remdups_sym: "sort (remdups (xs @ ys)) = sort (remdups (ys @ xs))"
  by (rule sorted_distinct_set_unique) auto

lemma label_rank_inj:
  assumes "py_sorted xs = Inr ys" and "distinct xs"
  shows "inj_on label_rank (set xs)"
proof -
  from assms(1) consider "length xs \<le> 1" | "list_all is_number xs" | "list_all is_str xs"
    by (auto simp: py_sorted_def split: if_splits)
  then show ?thesis
  proof cases
    case 1
    then have "xs = [] \<or> (\<exists>x. xs = [x])"
      by (cases xs) (auto simp: length_Suc_conv)
    then show ?thesis by auto
  next
    case 2
    show ?thesis
    proof (rule inj_onI)
      fix a b assume "a \<in> set xs" "b \<in> set xs" "label_rank a = label_rank b"
      with 2 have "is_number a" "is_number b" by (auto simp: list_all_iff)
      with \<open>label_rank a = label_rank b\<close> show "a = b"
        by (cases a rule: is_number.cases; cases b rule: is_number.cases) auto
    qed
  next
    case 3
    show ?thesis
    proof (rule inj_onI)
      fix a b assume "a \<in> set xs" "b \<in> set xs" "label_rank a = label_rank b"
      with 3 have "is_str a" "is_str b" by (auto simp: list_all_iff)
      with \<open>label_rank a = label_rank b\<close> show "a = b"
        by (cases a rule: is_str.cases; cases b rule: is_str.cases) auto
    qed
  qed
qed

lemma sort_key_same_set:
  assumes "inj_on f (set xs)" and "distinct xs" and "distinct ys" and "set xs = set ys"
  shows "sort_key f xs = sort_key f ys"
proof -
  have "map f (sort_key f xs) = map f (sort_key f ys)"
  proof (rule sorted_distinct_set_unique)
    show "sorted (map f (sort_key f xs))" "sorted (map f (sort_key f ys))" by simp_all
    show "distinct (map f (sort_key f xs))" using assms(1,2) by (simp add: distinct_map)
    show "distinct (map f (sort_key f ys))" using assms(1,3,4) by (simp add: distinct_map)
    show "set (map f (sort_key f xs)) = set (map f (sort_key f ys))" using assms(4) by simp
  qed
  moreover have "inj_on f (set (sort_key f xs) \<union> set (sort_key f ys))"
    using assms(1,4) by simp
  ultimately show ?thesis using inj_on_map_eq_map by blast
qed


lemma swap_when_both_return:
  assumes run1: "compare_frames rt n1 n2 df1 df2 kc = Inr (s1, dt1, m1)"
    and run2: "compare_frames rt n2 n1 df2 df1 kc = Inr (s2, dt2, m2)"
  defines "d1 \<equiv> set_index kc df1" and "d2 \<equiv> set_index kc df2"
  defines "cols \<equiv> sort (remdups (columns d1 @ columns d2))"
  defines "common \<equiv>
     filter (in_both d1 d2) (sort_key label_rank (remdups (index d1 @ index d2)))"
  defines "ncols \<equiv> filter (\<lambda>c. is_np_number (dtype d1 c) \<or> is_np_number (dtype d2 c)) cols"
  shows "s2 = s1 \<and> m2 = m1 \<and>
         dt1 = concat (map (\<lambda>k. map (\<lambda>col. mismatch_row rt n1 n2 ncols k col
                                         (val_of d1 k col) (val_of d2 k col))
                                 (filter (differs d1 d2 k) cols)) common) \<and>
         dt2 = concat (map (\<lambda>k. map (\<lambda>col. mismatch_row rt n2 n1 ncols k col
                                         (val_of d2 k col) (val_of d1 k col))
                                 (filter (differs d1 d2 k) cols)) common) \<and>
         (\<forall>val1 val2. difference rt val2 val1 = py_neg (difference rt val1 val2))"
proof -
  let ?i12 = "remdups (index d1 @ index d2)" and ?i21 = "remdups (index d2 @ index d1)"
  let ?ks = "sort_key label_rank ?i12"
  have c: "sort (remdups (columns d2 @ columns d1)) = cols"
    unfolding cols_def by (rule sort_remdups_sym)
  from run1 obtain all_keys where ps: "py_sorted ?i12 = Inr all_keys"
    by (auto simp: compare_frames_def Let_def d1_def d2_def split: sum.splits if_splits)
  have "inj_on label_rank (set ?i12)" by (rule label_rank_inj [OF ps]) simp
  then have k: "sort_key label_rank ?i21 = ?ks"
    by (intro sort_key_same_set [symmetric]) auto
  from compare_frames_Inr [OF run1] obtain nc1 where
    s1: "s1 = map (summary_of d1 d2 cols) (filter (in_both d1 d2) ?ks)" and
    m1: "m1 = map (missing_of d1 n1 n2) (filter (\<lambda>k. \<not> in_both d1 d2 k) ?ks)" and
    n1: "numeric_cols_of d1 d2 cols = Inr nc1" and
    e1: "dt1 = concat (map (rows_of_key rt d1 d2 n1 n2 nc1 cols) (filter (in_both d1 d2) ?ks))"
    unfolding d1_def d2_def cols_def by blast
  from compare_frames_Inr [OF run2] obtain nc2 where
    s2: "s2 = map (summary_of d2 d1 cols) (filter (in_both d2 d1) ?ks)" and
    m2: "m2 = map (missing_of d2 n2 n1) (filter (\<lambda>k. \<not> in_both d2 d1 k) ?ks)" and
    n2: "numeric_cols_of d2 d1 cols = Inr nc2" and
    e2: "dt2 = concat (map (rows_of_key rt d2 d1 n2 n1 nc2 cols) (filter (in_both d2 d1) ?ks))"
    unfolding d1_def [symmetric] d2_def [symmetric] c k by blast
  have ib: "in_both d2 d1 = in_both d1 d2" by (rule ext) (rule in_both_sym)
  have so: "summary_of d2 d1 cols = summary_of d1 d2 cols" by (rule ext) (rule summary_of_sym)
  have "s2 = s1" unfolding s1 s2 ib so ..
  moreover have "m2 = m1" unfolding m1 m2 ib
    by (rule map_cong [OF refl]) (auto intro!: missing_of_sym)
  moreover from numeric_cols_of_Inr [OF n1] have nc1: "nc1 = ncols" by (simp add: ncols_def)
  moreover from numeric_cols_of_Inr [OF n2] have nc2: "nc2 = ncols"
    by (auto simp: ncols_def intro: filter_cong)
  moreover have "dt1 = concat (map (\<lambda>k. map (\<lambda>col. mismatch_row rt n1 n2 ncols k col
                                         (val_of d1 k col) (val_of d2 k col))
                                 (filter (differs d1 d2 k) cols)) common)"
    unfolding e1 nc1 common_def by (simp add: rows_of_key_def [abs_def])
  moreover have "dt2 = concat (map (\<lambda>k. map (\<lambda>col. mismatch_row rt n2 n1 ncols k col
                                         (val_of d2 k col) (val_of d1 k col))
                                 (filter (differs d1 d2 k) cols)) common)"
    unfolding e2 nc2 common_def ib
    by (simp add: rows_of_key_def [abs_def] filter_differs_sym [of d2 d1])
  ultimately show ?thesis using difference_swap by blast
qed

section \<open>The order of the sheets\<close>






end
